theory Spec2Isabelle
  imports Complex_Main "HOL-Library.Sublist"
begin

section \<open>MixMatch training step (mixmatch.py)\<close>

text \<open>
  The program builds a TensorFlow graph. Tensors of rank 2 are modelled as lists of rows
  (\<open>real list list\<close>), tensors of rank 3 as lists of those. Arithmetic is over the reals:
  the rounding of float32 inside its range is not modelled. Where the program can leave the
  range of float32 without raising (the power and the division of lines 64 and 65), the
  result is a value of the type \<open>f32\<close>, which has the infinities and NaN. Python and TensorFlow exceptions
  are values of the type \<open>error\<close>; a function that can raise returns \<open>error + 'a\<close>.
\<close>

datatype error = TypeError | ZeroDivisionError | ValueError

type_synonym tensor2 = "real list list"
type_synonym tensor3 = "real list list list"

subsection \<open>TensorFlow operations used by \<open>guess_label\<close>\<close>

text \<open>
  \<open>tf.concat(values, 0)\<close> on rank-2 tensors: raises on an empty list of values and when
  the tensors disagree in their second dimension. (A tensor without rows does not record
  its width in this representation; it is taken to agree with the others, as the logits
  of one classifier do.)
\<close>

definition tf_concat0 :: "'a list list list \<Rightarrow> error + 'a list list" where
  "tf_concat0 ts =
     (if ts = [] then Inl ValueError
      else if length (remdups (map length (concat ts))) > 1 then Inl ValueError
      else Inr (concat ts))"

text \<open>\<open>tf.nn.softmax\<close> normalises along the last axis.\<close>

definition softmax_row :: "real list \<Rightarrow> real list" where
  "softmax_row xs = map (\<lambda>x. exp x / (\<Sum>y\<leftarrow>xs. exp y)) xs"

definition tf_softmax :: "tensor2 \<Rightarrow> tensor2" where
  "tf_softmax t = map softmax_row t"

text \<open>
  \<open>tf.reshape(t, [d0, -1, d2])\<close>: the elements are read in row-major order and regrouped.
  The middle dimension is inferred. For positive \<open>d0\<close> and \<open>d2\<close> the call raises when the
  number of elements is not a multiple of \<open>d0 * d2\<close>. For \<open>d0 * d2 = 0\<close> the requested
  shape has no elements: the call raises when the tensor has some, and otherwise infers the
  middle dimension from the dimensions that are not zero, here the number of rows of a
  tensor of width 0. (A tensor without rows does not record its width in this
  representation; for it the inferred dimension is taken as 0.)
\<close>

definition tf_reshape3 :: "nat \<Rightarrow> nat \<Rightarrow> 'a list list \<Rightarrow> error + 'a list list list" where
  "tf_reshape3 d0 d2 t =
     (let flat = concat t in
      if d0 * d2 = 0 then
        (if flat = [] then Inr (replicate d0 (replicate (length t div d0) []))
         else Inl ValueError)
      else if length flat mod (d0 * d2) \<noteq> 0 then Inl ValueError
      else
        let d1 = length flat div (d0 * d2) in
        Inr (map (\<lambda>i. map (\<lambda>j. map (\<lambda>k. flat ! ((i * d1 + j) * d2 + k)) [0..<d2]) [0..<d1])
               [0..<d0]))"

text \<open>\<open>tf.reduce_mean(t, axis=0)\<close> on a rank-3 tensor of shape \<open>[d0, d1, d2]\<close>.\<close>

definition tf_reduce_mean0 :: "tensor3 \<Rightarrow> tensor2" where
  "tf_reduce_mean0 t =
     (case t of
        [] \<Rightarrow> []
      | m # _ \<Rightarrow>
          map (\<lambda>j. map (\<lambda>k. (\<Sum>i\<leftarrow>[0..<length t]. t ! i ! j ! k) / real (length t))
                      [0..<length (m ! j)])
              [0..<length m])"

text \<open>
  The values of float32 arithmetic that does not raise: a finite number, an infinity or
  NaN. \<open>f32_max\<close> is the largest finite float32; a positive result of at most
  \<open>f32_half_min\<close>, half the smallest positive float32, is rounded to 0. The sign of a zero
  is not modelled.
\<close>

datatype f32 = Fin real | PInf | NInf | NaN

definition f32_max :: real where
  "f32_max = (2 - 1 / 2 ^ 23) * 2 ^ 127"

definition f32_half_min :: real where
  "f32_half_min = 1 / 2 ^ 150"

definition f32_overflow :: "real \<Rightarrow> f32" where
  "f32_overflow r = (if f32_max < r then PInf else if r < - f32_max then NInf else Fin r)"

text \<open>
  The float32 result of a power whose exact value is \<open>r\<close>, for the base \<open>x\<close>. The base is
  a float32 value, so a result that is not smaller than the base cannot underflow, and one
  that is not larger cannot overflow.
\<close>

definition pow_result :: "real \<Rightarrow> real \<Rightarrow> f32" where
  "pow_result x r =
     (if \<bar>r\<bar> < \<bar>x\<bar> \<and> \<bar>r\<bar> \<le> f32_half_min then Fin 0
      else if \<bar>x\<bar> < \<bar>r\<bar> then f32_overflow r
      else Fin r)"

text \<open>
  \<open>pow(x, e)\<close> on float32: 1 for the exponent 0; at the base 0, infinite for a negative
  exponent and 0 for a positive one; for a negative base, NaN unless the exponent is an
  integer.
\<close>

definition pow_f32 :: "real \<Rightarrow> real \<Rightarrow> f32" where
  "pow_f32 x e =
     (if e = 0 then Fin 1
      else if x = 0 then (if e < 0 then PInf else Fin 0)
      else if 0 < x then pow_result x (x powr e)
      else if e = of_int \<lfloor>e\<rfloor> then
        pow_result x ((if even \<lfloor>e\<rfloor> then 1 else - 1) * (\<bar>x\<bar> powr e))
      else NaN)"

text \<open>\<open>tf.pow(t, e)\<close>, element-wise.\<close>

definition tf_pow :: "tensor2 \<Rightarrow> real \<Rightarrow> f32 list list" where
  "tf_pow t e = map (map (\<lambda>x. pow_f32 x e)) t"

text \<open>Addition and division on \<open>f32\<close>, and the sum of a row (\<open>tf.reduce_sum\<close>).\<close>

fun f32_add :: "f32 \<Rightarrow> f32 \<Rightarrow> f32" where
  "f32_add (Fin a) (Fin b) = f32_overflow (a + b)"
| "f32_add NaN _ = NaN"
| "f32_add _ NaN = NaN"
| "f32_add PInf NInf = NaN"
| "f32_add NInf PInf = NaN"
| "f32_add PInf _ = PInf"
| "f32_add _ PInf = PInf"
| "f32_add NInf _ = NInf"
| "f32_add _ NInf = NInf"

fun f32_div :: "f32 \<Rightarrow> f32 \<Rightarrow> f32" where
  "f32_div (Fin a) (Fin b) =
     (if b = 0 then (if a = 0 then NaN else if 0 < a then PInf else NInf)
      else f32_overflow (a / b))"
| "f32_div NaN _ = NaN"
| "f32_div _ NaN = NaN"
| "f32_div (Fin a) _ = Fin 0"
| "f32_div PInf (Fin b) = (if 0 \<le> b then PInf else NInf)"
| "f32_div NInf (Fin b) = (if 0 \<le> b then NInf else PInf)"
| "f32_div _ _ = NaN"

definition f32_sum :: "f32 list \<Rightarrow> f32" where
  "f32_sum xs = foldr f32_add xs (Fin 0)"

text \<open>\<open>t / tf.reduce_sum(t, axis=1, keep_dims=True)\<close>: every row divided by its sum.\<close>

definition div_row_sums :: "f32 list list \<Rightarrow> f32 list list" where
  "div_row_sums t = map (\<lambda>row. map (\<lambda>x. f32_div x (f32_sum row)) row) t"

text \<open>The Python expression \<open>1. / T\<close>: division by zero raises.\<close>

definition py_inv :: "real \<Rightarrow> error + real" where
  "py_inv T = (if T = 0 then Inl ZeroDivisionError else Inr (1 / T))"

subsection \<open>\<open>MixMatch.guess_label\<close>\<close>

record ('t, 'a) guess =
  p_target :: "'t list list"
  p_model :: "'a list list"

text \<open>Lines 64 and 65: the target distribution from the averaged prediction.\<close>

definition sharpen :: "real \<Rightarrow> tensor2 \<Rightarrow> error + f32 list list" where
  "sharpen T p_model_y =
     (case py_inv T of
        Inl e \<Rightarrow> Inl e
      | Inr e \<Rightarrow> Inr (div_row_sums (tf_pow p_model_y e)))"

text \<open>
  \<open>guess_label(self, y, classifier, T)\<close>, with \<open>nclass\<close> for \<open>self.nclass\<close>. The classifier
  is a parameter: it maps a batch of examples to its logits. The steps keep the order of
  the source, so the first failing operation decides the error.
\<close>

definition guess_label ::
  "nat \<Rightarrow> 'x list \<Rightarrow> ('x \<Rightarrow> tensor2) \<Rightarrow> real \<Rightarrow> error + (f32, real) guess" where
  "guess_label nclass y classifier T =
     (let logits_y = map classifier y in
      case tf_concat0 logits_y of
        Inl e \<Rightarrow> Inl e
      | Inr logits_y \<Rightarrow>
          (case tf_reshape3 (length y) nclass (tf_softmax logits_y) of
             Inl e \<Rightarrow> Inl e
           | Inr p3 \<Rightarrow>
               let p_model_y = tf_reduce_mean0 p3 in
               (case sharpen T p_model_y of
                  Inl e \<Rightarrow> Inl e
                | Inr pt \<Rightarrow> Inr \<lparr>p_target = pt, p_model = p_model_y\<rparr>)))"

subsection \<open>The step built by \<open>MixMatch.model\<close>: label guessing (lines 76, 83, 93 and 94)\<close>

text \<open>
  The arguments of \<open>model\<close>. What the caller passes beyond the named parameters arrives in
  \<open>kwargs\<close>, a dictionary that \<open>model\<close> hands on to \<open>guess_label\<close> and, through the lambda
  of line 83, to the classifier.
\<close>

record 'kv config =
  batch :: int
  lr :: real
  wd :: real
  ema :: real
  beta :: real
  w_match :: real
  warmup_kimg :: int
  nu :: int
  mixmode :: string
  dbuf :: int
  kwargs :: "(string \<times> 'kv) list"

text \<open>
  \<open>tf.split(value, n)\<close> along axis 0 into \<open>n\<close> equal parts: raises unless \<open>n\<close> is positive
  and divides the first dimension.
\<close>

definition tf_split :: "'a list \<Rightarrow> int \<Rightarrow> error + 'a list list" where
  "tf_split xs n =
     (if n \<le> 0 \<or> int (length xs) mod n \<noteq> 0 then Inl ValueError
      else
        let sz = length xs div nat n in
        Inr (map (\<lambda>i. take sz (drop (i * sz) xs)) [0..<nat n]))"

text \<open>
  \<open>tf.reshape(tf.transpose(y_in, [1, 0, 2, 3, 4]), [-1] + hwc)\<close> on a fed value of the
  placeholder \<open>y_in\<close>, whose declared shape is \<open>[batch, nu] + hwc\<close>: a value of another
  shape (and a negative dimension in the declaration) is rejected by TensorFlow.
\<close>

definition views_first :: "int \<Rightarrow> int \<Rightarrow> 'x list list \<Rightarrow> error + 'x list" where
  "views_first b n y_in =
     (if n < 0 \<or> int (length y_in) \<noteq> b \<or> list_ex (\<lambda>row. int (length row) \<noteq> n) y_in
      then Inl ValueError
      else Inr (concat (map (\<lambda>i. map (\<lambda>row. row ! i) y_in) [0..<nat n])))"

text \<open>
  Python binds the arguments of a call before the body runs: a key of a \<open>**\<close> dictionary
  that names a parameter already bound, or a key passed twice, raises \<open>TypeError\<close>.
\<close>

definition keyword_clash :: "string list \<Rightarrow> (string \<times> 'kv) list \<Rightarrow> bool" where
  "keyword_clash names kw = list_ex (\<lambda>k. k \<in> set names) (map fst kw)"

definition guess_label_params :: "string list" where
  "guess_label_params = [''self'', ''y'', ''classifier'', ''T'']"

text \<open>
  \<open>model\<close> runs once, on symbolic tensors, and builds the graph; the guess is computed when
  a value is fed to the placeholder \<open>y_in\<close>. What the lines that lead to the guess raise
  while the graph is built depends on the configuration only, and comes before any value:
  \<^item> line 76, \<open>tf.placeholder(tf.float32, [batch, nu] + hwc, 'y')\<close>: a negative dimension
    raises \<open>ValueError\<close>;
  \<^item> line 94, the argument \<open>tf.split(y, nu)\<close>: \<open>nu = 0\<close> raises \<open>ValueError\<close>;
  \<^item> line 94, the call \<open>self.guess_label(\<dots>, classifier, T=0.5, **kwargs)\<close>: a key of
    \<open>kwargs\<close> that names a parameter of \<open>guess_label\<close> raises \<open>TypeError\<close>;
  \<^item> line 58, the first call \<open>classifier(yi, training=True)\<close> of the lambda of line 83,
    \<open>self.classifier(x, **kw, **kwargs)\<close>: the key \<open>training\<close> in \<open>kwargs\<close> raises
    \<open>TypeError\<close>. (Which other keys the classifier of libml refuses is not in the source.)

  Lines 82 to 90 construct collaborators of libml (\<open>MixMode\<close>, \<open>PMovingAverage\<close>,
  \<open>PData\<close>); they are taken to have returned.
\<close>

definition model_guess_build :: "'kv config \<Rightarrow> error + unit" where
  "model_guess_build cfg =
     (if batch cfg < 0 \<or> nu cfg < 0 then Inl ValueError
      else if nu cfg = 0 then Inl ValueError
      else if keyword_clash guess_label_params (kwargs cfg) then Inl TypeError
      else if keyword_clash [''training''] (kwargs cfg) then Inl TypeError
      else Inr ())"

text \<open>
  The guess for a fed value \<open>y_in\<close>: lines 93 and 94, with the temperature of the source.
  (The shape errors of \<open>tf.concat\<close> and \<open>tf.reshape\<close> in \<open>guess_label\<close>, which TensorFlow
  finds from the static shapes while the graph is built, come out here with the value;
  they are \<open>ValueError\<close> like the refusal of a fed value of the wrong shape.)
\<close>

definition model_guess_run ::
  "'kv config \<Rightarrow> nat \<Rightarrow> ('x list \<Rightarrow> tensor2) \<Rightarrow> 'x list list \<Rightarrow> error + (f32, real) guess" where
  "model_guess_run cfg nclass classifier y_in =
     (case views_first (batch cfg) (nu cfg) y_in of
        Inl e \<Rightarrow> Inl e
      | Inr y \<Rightarrow>
          (case tf_split y (nu cfg) of
             Inl e \<Rightarrow> Inl e
           | Inr views \<Rightarrow> guess_label nclass views classifier (1 / 2)))"

definition model_guess ::
  "'kv config \<Rightarrow> nat \<Rightarrow> ('x list \<Rightarrow> tensor2) \<Rightarrow> 'x list list \<Rightarrow> error + (f32, real) guess" where
  "model_guess cfg nclass classifier y_in =
     (case model_guess_build cfg of
        Inl e \<Rightarrow> Inl e
      | Inr _ \<Rightarrow> model_guess_run cfg nclass classifier y_in)"

subsection \<open>The labels handed to the mixing step (lines 96 to 98)\<close>

text \<open>
  A tensor entry that TensorFlow differentiates is modelled as a pair: its value and its
  derivative with respect to a classifier parameter. \<open>tf.stop_gradient\<close> keeps the value and
  makes the derivative zero; \<open>tf.one_hot\<close> produces constants.
\<close>

type_synonym tracked = "real \<times> real"

definition tf_stop_gradient :: "tracked list list \<Rightarrow> tracked list list" where
  "tf_stop_gradient t = map (map (\<lambda>x. (fst x, 0))) t"

definition tf_one_hot :: "int list \<Rightarrow> nat \<Rightarrow> tracked list list" where
  "tf_one_hot l_in depth = map (\<lambda>l. map (\<lambda>k. if int k = l then (1, 0) else (0, 0)) [0..<depth]) l_in"

text \<open>The list \<open>[lx] + [ly] * nu\<close>; Python's \<open>[ly] * nu\<close> is empty for \<open>nu \<le> 0\<close>.\<close>

definition model_labels ::
  "nat \<Rightarrow> int \<Rightarrow> (tracked, tracked) guess \<Rightarrow> int list \<Rightarrow> tracked list list list" where
  "model_labels nclass n g l_in =
     (let ly = tf_stop_gradient (p_target g);
          lx = tf_one_hot l_in nclass
      in [lx] @ replicate (nat n) ly)"

subsection \<open>The losses (lines 81 and 113 to 131)\<close>

text \<open>\<open>tf.clip_by_value(t, lo, hi)\<close> is \<open>maximum(minimum(t, hi), lo)\<close>.\<close>

definition tf_clip_by_value :: "real \<Rightarrow> real \<Rightarrow> real \<Rightarrow> real" where
  "tf_clip_by_value t lo hi = max (min t hi) lo"

text \<open>
  Line 81: \<open>w_match *= tf.clip_by_value(tf.cast(self.step, tf.float32) / (warmup_kimg << 10), 0, 1)\<close>.
  The step counts processed examples. For \<open>warmup_kimg = 0\<close> the float division gives an
  infinity or a NaN, which the reals do not have: the theorems below take \<open>0 < warmup_kimg\<close>.
\<close>

definition ramped_w_match :: "real \<Rightarrow> int \<Rightarrow> int \<Rightarrow> real" where
  "ramped_w_match w step wk =
     w * tf_clip_by_value (real_of_int step / real_of_int (push_bit 10 wk)) 0 1"

text \<open>
  \<open>tf.nn.softmax_cross_entropy_with_logits_v2\<close> computes, for every row, the sum of
  \<open>labels * (log (sum (exp logits)) - logits)\<close>. The operands of the losses have equal
  shapes in the step; other shapes answer \<open>ValueError\<close> here (TensorFlow's broadcasting of a
  dimension of size 1 is not modelled).
\<close>

definition tf_softmax_cross_entropy_with_logits_v2 :: "tensor2 \<Rightarrow> tensor2 \<Rightarrow> error + real list" where
  "tf_softmax_cross_entropy_with_logits_v2 labels logits =
     (if map length labels \<noteq> map length logits then Inl ValueError
      else Inr (map (\<lambda>(l, x). \<Sum>(lk, xk)\<leftarrow>zip l x. lk * (ln (\<Sum>y\<leftarrow>x. exp y) - xk))
                  (zip labels logits)))"

definition tf_sub :: "tensor2 \<Rightarrow> tensor2 \<Rightarrow> error + tensor2" where
  "tf_sub a b =
     (if map length a \<noteq> map length b then Inl ValueError
      else Inr (map (\<lambda>(r, s). map (\<lambda>(x, y). x - y) (zip r s)) (zip a b)))"

definition tf_square :: "tensor2 \<Rightarrow> tensor2" where
  "tf_square t = map (map (\<lambda>x. x * x)) t"

text \<open>\<open>tf.reduce_mean\<close> over all elements, of a vector and of a matrix.\<close>

definition tf_reduce_mean1 :: "real list \<Rightarrow> real" where
  "tf_reduce_mean1 xs = sum_list xs / real (length xs)"

definition tf_reduce_mean2 :: "tensor2 \<Rightarrow> real" where
  "tf_reduce_mean2 t = sum_list (concat t) / real (length (concat t))"

text \<open>
  The scalar passed to \<open>AdamOptimizer(lr).minimize\<close> on line 131, from the labels and the
  logits of the two streams.
\<close>

definition model_loss ::
  "tensor2 \<Rightarrow> tensor2 \<Rightarrow> tensor2 \<Rightarrow> tensor2 \<Rightarrow> real \<Rightarrow> int \<Rightarrow> int \<Rightarrow> error + real" where
  "model_loss labels_x logits_x labels_y logits_y w step wk =
     (let w = ramped_w_match w step wk in
      case tf_softmax_cross_entropy_with_logits_v2 labels_x logits_x of
        Inl e \<Rightarrow> Inl e
      | Inr loss_xe \<Rightarrow>
          let loss_xe = tf_reduce_mean1 loss_xe in
          (case tf_sub labels_y (tf_softmax logits_y) of
             Inl e \<Rightarrow> Inl e
           | Inr d \<Rightarrow>
               let loss_l2u = tf_reduce_mean2 (tf_square d) in
               Inr (loss_xe + w * loss_l2u)))"

text \<open>The same loss in the words of the specification.\<close>

definition spec_cross_entropy :: "real list \<Rightarrow> real list \<Rightarrow> real" where
  "spec_cross_entropy p q = - (\<Sum>(pk, qk)\<leftarrow>zip p q. pk * ln qk)"

definition spec_supervised_loss :: "tensor2 \<Rightarrow> tensor2 \<Rightarrow> real" where
  "spec_supervised_loss labels logits =
     (\<Sum>(l, x)\<leftarrow>zip labels logits. spec_cross_entropy l (softmax_row x)) / real (length logits)"

definition spec_consistency_loss :: "tensor2 \<Rightarrow> tensor2 \<Rightarrow> real" where
  "spec_consistency_loss labels logits =
     (\<Sum>(l, x)\<leftarrow>zip labels logits. \<Sum>(lk, sk)\<leftarrow>zip l (softmax_row x). (lk - sk)\<^sup>2)
       / real (sum_list (map length logits))"

definition spec_weight :: "real \<Rightarrow> int \<Rightarrow> int \<Rightarrow> real" where
  "spec_weight w s wk =
     (if s \<le> 0 then 0
      else if s \<ge> wk * 1024 then w
      else w * real_of_int s / real_of_int (wk * 1024))"

definition spec_total_loss ::
  "tensor2 \<Rightarrow> tensor2 \<Rightarrow> tensor2 \<Rightarrow> tensor2 \<Rightarrow> real \<Rightarrow> int \<Rightarrow> int \<Rightarrow> real" where
  "spec_total_loss labels_x logits_x labels_y logits_y w s wk =
     spec_supervised_loss labels_x logits_x
       + spec_weight w s wk * spec_consistency_loss labels_y logits_y"

subsection \<open>The label guesser in the words of the specification\<close>




subsection \<open>The operations committed with the optimizer step (lines 79, 104 to 108, 124 to 129)\<close>

text \<open>
  The graph keeps the collection \<open>tf.GraphKeys.UPDATE_OPS\<close>; an operation is identified by
  the number it got when it was created. A forward pass of the classifier in training mode
  creates update operations (the running statistics of batch normalisation) and registers
  them in the collection. How many a pass creates is the classifier's matter: it is the
  parameter \<open>k\<close>.
\<close>

record graph =
  update_ops :: "nat list"
  next_op :: nat

definition classifier_training_pass :: "nat \<Rightarrow> graph \<Rightarrow> nat list \<times> graph" where
  "classifier_training_pass k g =
     (let ops = [next_op g ..< next_op g + k]
      in (ops, \<lparr>update_ops = update_ops g @ ops, next_op = next_op g + k\<rparr>))"

text \<open>The loop \<open>for batchi in batches[1:]\<close>, with the operations every pass registered.\<close>

fun remaining_passes :: "nat list \<Rightarrow> graph \<Rightarrow> nat list list \<times> graph" where
  "remaining_passes [] g = ([], g)"
| "remaining_passes (k # ks) g =
     (let (ops, g1) = classifier_training_pass k g;
          (opss, g2) = remaining_passes ks g1
      in (ops # opss, g2))"

text \<open>The operations that line 133 groups behind the optimizer step.\<close>

datatype post_op =
    UpdateOp nat
  | EmaApply
  | PModelUpdate
  | PTargetUpdate
  | PDataUpdate
  | AssignDecay string real

text \<open>Python's \<open>sub in s\<close> on strings.\<close>

fun py_in :: "string \<Rightarrow> string \<Rightarrow> bool" where
  "py_in sub [] = (sub = [])"
| "py_in sub (c # cs) = (prefix sub (c # cs) \<or> py_in sub cs)"

text \<open>
  Line 79 and line 129: \<open>wd *= lr\<close>, then one \<open>tf.assign(v, v * (1 - wd))\<close> for every
  variable of \<open>utils.model_vars('classify')\<close> whose name contains \<open>kernel\<close>. The list of
  those variables' names is the parameter \<open>vars\<close>.
\<close>

definition weight_decay_ops :: "real \<Rightarrow> real \<Rightarrow> string list \<Rightarrow> post_op list" where
  "weight_decay_ops wd_in lr_in vars =
     (let wd' = wd_in * lr_in
      in map (\<lambda>v. AssignDecay v (1 - wd')) (filter (py_in ''kernel'') vars))"

text \<open>
  Lines 104 to 108 and 124 to 129. \<open>k0\<close> and \<open>ks\<close> are the numbers of update operations
  that the passes over \<open>batches[0]\<close> and over \<open>batches[1:]\<close> create; \<open>has_update\<close> is
  \<open>p_data.has_update\<close>.
\<close>

definition model_post_ops ::
  "graph \<Rightarrow> nat \<Rightarrow> nat list \<Rightarrow> bool \<Rightarrow> real \<Rightarrow> real \<Rightarrow> string list \<Rightarrow> post_op list \<times> graph" where
  "model_post_ops g k0 ks has_update wd_in lr_in vars =
     (let skip_ops = update_ops g;
          (ops0, g1) = classifier_training_pass k0 g;
          post_ops = filter (\<lambda>v. v \<notin> set skip_ops) (update_ops g1);
          (opss, g2) = remaining_passes ks g1;
          post_ops = map UpdateOp post_ops @ [EmaApply, PModelUpdate, PTargetUpdate];
          post_ops = (if has_update then post_ops @ [PDataUpdate] else post_ops);
          post_ops = post_ops @ weight_decay_ops wd_in lr_in vars
      in (post_ops, g2))"

text \<open>
  The effect of a committed operation on the trainable variables, a store from names to
  (flattened) values. Only the assignments of line 129 write trainable variables: the
  other operations write moving statistics, shadow copies and tracker buffers.
\<close>

fun run_post_op :: "post_op \<Rightarrow> (string \<Rightarrow> real list) \<Rightarrow> (string \<Rightarrow> real list)" where
  "run_post_op (AssignDecay v f) s = s(v := map (\<lambda>x. x * f) (s v))"
| "run_post_op _ s = s"

subsection \<open>The interleaving of the streams (\<open>layers.interleave\<close>, lines 103 and 109)\<close>

text \<open>
  Modelled from the spec: \<open>layers.interleave\<close> is defined in \<open>libml/layers.py\<close>, which is
  not among the sources; \<open>mixmatch.py\<close> only calls it, on \<open>nu + 1\<close> streams of \<open>batch\<close>
  examples. Section 4.4 of the specification fixes its contract: a regrouping of the
  streams' examples into as many batches of the same size, which applied twice restores the
  streams. The model is a regrouping of that kind: every stream is cut into \<open>nu + 1\<close>
  consecutive groups at the same offsets, and group \<open>i\<close> of stream 0 changes places with
  group \<open>i\<close> of stream \<open>i\<close>. The sizes of the groups: \<open>batch\<close> divided evenly, the
  remainder going to the last groups.
\<close>

definition interleave_groups :: "nat \<Rightarrow> nat \<Rightarrow> nat list" where
  "interleave_groups b n =
     replicate (n + 1 - b mod (n + 1)) (b div (n + 1)) @ replicate (b mod (n + 1)) (b div (n + 1) + 1)"

text \<open>Modelled from the spec: a stream cut into consecutive groups of the given sizes.\<close>

fun split_groups :: "nat list \<Rightarrow> 'a list \<Rightarrow> 'a list list" where
  "split_groups [] v = []"
| "split_groups (s # ss) v = take s v # split_groups ss (drop s v)"

text \<open>
  Modelled from the spec: the exchange of group \<open>p\<close> of stream 0 with group \<open>p\<close> of stream
  \<open>p\<close>, on the matrix of groups (row \<open>v\<close> holds the groups of stream \<open>v\<close>).
\<close>

definition swap_groups :: "'a list list list \<Rightarrow> 'a list list list" where
  "swap_groups G =
     map (\<lambda>v. map (\<lambda>p. if v = 0 then G ! p ! p else if v = p then G ! 0 ! p else G ! v ! p)
                 [0..<length (G ! v)])
         [0..<length G]"

text \<open>
  Modelled from the spec: \<open>interleave(xy, batch)\<close>, the regrouped streams, each the
  concatenation of its groups.
\<close>

definition interleave :: "'a list list \<Rightarrow> nat \<Rightarrow> 'a list list" where
  "interleave xy b =
     (let n = length xy - 1;
          sizes = interleave_groups b n
      in map concat (swap_groups (map (split_groups sizes) xy)))"

section \<open>Verification\<close>

subsection \<open>Lists and sums\<close>



lemma length_concat_uniform:
  "\<forall>xs\<in>set xss. length xs = n \<Longrightarrow> length (concat xss) = length xss * n"
  by (induction xss) simp_all

lemma sum_list_exp_pos: "xs \<noteq> [] \<Longrightarrow> 0 < (\<Sum>y\<leftarrow>xs. exp (y::real))"
proof (induction xs)
  case Nil
  then show ?case by simp
next
  case (Cons x xs)
  have "0 < exp x" by simp
  moreover have "0 \<le> (\<Sum>y\<leftarrow>xs. exp y)" by (rule sum_list_nonneg) auto
  ultimately have "0 < exp x + (\<Sum>y\<leftarrow>xs. exp y)" by (rule add_pos_nonneg)
  then show ?case by simp
qed

lemma length_softmax_row: "length (softmax_row xs) = length xs"
  by (simp add: softmax_row_def)

lemma map_length_tf_softmax: "map length (tf_softmax t) = map length t"
  by (simp add: tf_softmax_def length_softmax_row)

subsection \<open>Sharpening\<close>

lemma f32_max_ge_one: "1 \<le> f32_max"
  by (simp add: f32_max_def)

lemma f32_overflow_Fin: "0 \<le> r \<Longrightarrow> r \<le> f32_max \<Longrightarrow> f32_overflow r = Fin r"
proof -
  assume r: "0 \<le> r" "r \<le> f32_max"
  have "0 \<le> f32_max" using f32_max_ge_one by simp
  with r show ?thesis by (simp add: f32_overflow_def)
qed

lemma member_le_sum_list_real:
  "\<forall>x\<in>set xs. 0 \<le> x \<Longrightarrow> (x::real) \<in> set xs \<Longrightarrow> x \<le> sum_list xs"
proof (induction xs)
  case Nil
  then show ?case by simp
next
  case (Cons a xs)
  from Cons.prems have nn: "\<forall>z\<in>set xs. 0 \<le> z" and a: "0 \<le> a" by simp_all
  from nn have s: "0 \<le> sum_list xs" by (simp add: sum_list_nonneg)
  show ?case
  proof (cases "x = a")
    case True
    with s show ?thesis by simp
  next
    case False
    with Cons.prems have "x \<in> set xs" by simp
    with nn have "x \<le> sum_list xs" by (rule Cons.IH)
    with a show ?thesis by simp
  qed
qed

lemma f32_sum_Fin:
  "\<forall>x\<in>set xs. 0 \<le> x \<Longrightarrow> sum_list xs \<le> f32_max \<Longrightarrow> f32_sum (map Fin xs) = Fin (sum_list xs)"
proof (induction xs)
  case Nil
  then show ?case by (simp add: f32_sum_def)
next
  case (Cons a xs)
  from Cons.prems have nn: "\<forall>z\<in>set xs. 0 \<le> z" and a: "0 \<le> a" by simp_all
  from nn have s: "0 \<le> sum_list xs" by (simp add: sum_list_nonneg)
  from Cons.prems(2) a have le: "sum_list xs \<le> f32_max" by simp
  from nn le have IH: "f32_sum (map Fin xs) = Fin (sum_list xs)" by (rule Cons.IH)
  have "f32_sum (map Fin (a # xs)) = f32_add (Fin a) (f32_sum (map Fin xs))"
    by (simp add: f32_sum_def)
  also have "\<dots> = f32_overflow (a + sum_list xs)" by (simp add: IH)
  also have "\<dots> = Fin (a + sum_list xs)"
    using a s Cons.prems(2) by (intro f32_overflow_Fin) simp_all
  finally show ?case by simp
qed

text \<open>The power at the edges of the range of float32.\<close>

lemma pow_f32_examples:
  "pow_f32 (1 / 4) 2 = Fin (1 / 16)"
  "pow_f32 (1 / 2) 1000 = Fin 0"
  "pow_f32 (1 / 2) (- 1000) = PInf"
  "pow_f32 0 (- 1) = PInf"
  "pow_f32 0 2 = Fin 0"
  "pow_f32 (- 2) 3 = Fin (- 8)"
  "pow_f32 (- 2) (1 / 2) = NaN"
  by (simp_all add: pow_f32_def pow_result_def f32_half_min_def f32_overflow_def f32_max_def
      power2_eq_square power_divide powr_minus)

text \<open>A base of 0 under a negative exponent: the row sum is infinite, the row NaN and 0.\<close>

lemma sharpen_zero_base_example: "sharpen (- 1) [[0, 1 / 2]] = Inr [[NaN, Fin 0]]"
  by (simp add: sharpen_def py_inv_def div_row_sums_def tf_pow_def pow_f32_def pow_result_def
      f32_sum_def f32_overflow_def f32_max_def f32_half_min_def powr_minus)

lemma pow_f32_one: "0 \<le> x \<Longrightarrow> pow_f32 x 1 = Fin x"
  by (simp add: pow_f32_def pow_result_def)

lemma tf_pow_one:
  assumes "\<forall>row\<in>set t. \<forall>x\<in>set row. 0 \<le> x"
  shows "tf_pow t 1 = map (map Fin) t"
  unfolding tf_pow_def using assms by (simp add: pow_f32_one)

lemma div_row_sums_one:
  assumes "\<forall>row\<in>set t. (\<forall>x\<in>set row. 0 \<le> x) \<and> sum_list row = 1"
  shows "div_row_sums (map (map Fin) t) = map (map Fin) t"
proof -
  have "map (\<lambda>x. f32_div x (f32_sum (map Fin row))) (map Fin row) = map Fin row"
    if r: "row \<in> set t" for row
  proof -
    from assms r have nn: "\<forall>x\<in>set row. 0 \<le> x" and s: "sum_list row = 1" by auto
    have "f32_sum (map Fin row) = Fin 1"
      using f32_sum_Fin[OF nn] s f32_max_ge_one by simp
    moreover have "f32_div (Fin x) (Fin 1) = Fin x" if "x \<in> set row" for x
    proof -
      from nn that have x0: "0 \<le> x" by simp
      from nn that have "x \<le> sum_list row" by (rule member_le_sum_list_real)
      with s f32_max_ge_one have "x \<le> f32_max" by simp
      with x0 show ?thesis by (simp add: f32_overflow_Fin)
    qed
    ultimately show ?thesis by simp
  qed
  then show ?thesis
    unfolding div_row_sums_def by simp
qed

text \<open>
  C9. Sharpening with temperature \<open>T = 1\<close> returns a tensor of probability vectors
  (non-negative entries, every row summing to 1) unchanged: every entry of the result is
  the finite value it was. Over the reals the equality is exact.
\<close>

theorem sharpen_T1_identity:
  assumes "\<forall>row\<in>set t. (\<forall>x\<in>set row. 0 \<le> x) \<and> sum_list row = 1"
  shows "sharpen 1 t = Inr (map (map Fin) t)"
proof -
  from assms have "tf_pow t 1 = map (map Fin) t" by (intro tf_pow_one) blast
  moreover from assms have "div_row_sums (map (map Fin) t) = map (map Fin) t"
    by (rule div_row_sums_one)
  ultimately show ?thesis by (simp add: sharpen_def py_inv_def)
qed

theorem sharpen_T1_identity_witness:
  "sharpen 1 [[1/4, 3/4], [0, 1], [1/3, 1/3, 1/3]] =
     Inr [[Fin (1/4), Fin (3/4)], [Fin 0, Fin 1], [Fin (1/3), Fin (1/3), Fin (1/3)]]"
  using sharpen_T1_identity[of "[[1/4, 3/4], [0, 1], [1/3, 1/3, 1/3]]"] by simp

subsection \<open>The warm-up of the matching weight\<close>

lemma ramp_eq_spec:
  assumes "0 < wk"
  shows "ramped_w_match w s wk = spec_weight w s wk"
proof -
  have d: "real_of_int (push_bit 10 wk) = real_of_int wk * 1024"
    by (simp add: push_bit_eq_mult)
  have pos: "0 < real_of_int wk * 1024" using assms by simp
  show ?thesis
  proof (cases "s \<le> 0")
    case True
    then have "real_of_int s / (real_of_int wk * 1024) \<le> 0"
      using pos by (simp add: divide_nonpos_pos)
    with True show ?thesis
      by (simp add: ramped_w_match_def spec_weight_def tf_clip_by_value_def d)
  next
    case False
    show ?thesis
    proof (cases "s \<ge> wk * 1024")
      case True
      then have "real_of_int wk * 1024 \<le> real_of_int s"
        by (metis of_int_le_iff of_int_mult of_int_numeral)
      then have "1 \<le> real_of_int s / (real_of_int wk * 1024)"
        using pos by (simp add: le_divide_eq)
      with True False show ?thesis
        by (simp add: ramped_w_match_def spec_weight_def tf_clip_by_value_def d)
    next
      case ge: False
      then have "real_of_int s < real_of_int wk * 1024"
        by (metis not_le of_int_less_iff of_int_mult of_int_numeral)
      then have "real_of_int s / (real_of_int wk * 1024) < 1"
        using pos by (simp add: divide_less_eq)
      moreover have "0 < real_of_int s / (real_of_int wk * 1024)"
        using False pos by simp
      ultimately show ?thesis using False ge
        by (simp add: ramped_w_match_def spec_weight_def tf_clip_by_value_def d)
    qed
  qed
qed

text \<open>
  C3. For a positive warm-up duration, the matching weight is \<open>w_match\<close> times the ratio of
  the step to \<open>warmup_kimg * 1024\<close> clipped to \<open>[0, 1]\<close>: it is 0 at step 0, linear up to
  \<open>warmup_kimg * 1024\<close>, equal to \<open>w_match\<close> there, and \<open>w_match\<close> for every later step.
\<close>

theorem warmup_weight:
  assumes "0 < wk"
  shows "ramped_w_match w s wk = w * max 0 (min 1 (real_of_int s / real_of_int (wk * 1024)))
       \<and> ramped_w_match w 0 wk = 0
       \<and> (0 \<le> s \<and> s \<le> wk * 1024 \<longrightarrow>
            ramped_w_match w s wk = w * real_of_int s / real_of_int (wk * 1024))
       \<and> ramped_w_match w (wk * 1024) wk = w
       \<and> (wk * 1024 \<le> s \<longrightarrow> ramped_w_match w s wk = w)"
proof -
  have d: "real_of_int (push_bit 10 wk) = real_of_int (wk * 1024)"
    by (simp add: push_bit_eq_mult)
  have c: "ramped_w_match w s wk = w * max 0 (min 1 (real_of_int s / real_of_int (wk * 1024)))"
    by (simp add: ramped_w_match_def tf_clip_by_value_def d max.commute min.commute)
  have e: "ramped_w_match w t wk = spec_weight w t wk" for t
    using assms by (rule ramp_eq_spec)
  have z: "ramped_w_match w 0 wk = 0" by (simp add: e spec_weight_def)
  have m: "ramped_w_match w (wk * 1024) wk = w" using assms by (simp add: e spec_weight_def)
  have g: "wk * 1024 \<le> s \<longrightarrow> ramped_w_match w s wk = w"
    using assms by (simp add: e spec_weight_def)
  have l: "0 \<le> s \<and> s \<le> wk * 1024 \<longrightarrow>
      ramped_w_match w s wk = w * real_of_int s / real_of_int (wk * 1024)"
    using assms by (auto simp add: e spec_weight_def)
  from c z l m g show ?thesis by blast
qed

theorem warmup_weight_witness:
  "ramped_w_match 100 0 1024 = 0 \<and> ramped_w_match 100 524288 1024 = 50
     \<and> ramped_w_match 100 1048576 1024 = 100 \<and> ramped_w_match 100 2000000 1024 = 100"
proof -
  have a: "ramped_w_match 100 0 1024 = 0" and b: "ramped_w_match 100 (1024 * 1024) 1024 = 100"
    using warmup_weight[of 1024 100 0] by simp_all
  have c: "ramped_w_match 100 524288 1024 = 50"
    using warmup_weight[of 1024 100 524288] by simp
  have d: "ramped_w_match 100 2000000 1024 = 100"
    using warmup_weight[of 1024 100 2000000] by simp
  from a b c d show ?thesis by simp
qed

subsection \<open>The label guesser\<close>




















subsection \<open>The loss\<close>

lemma xent_row:
  "(\<Sum>(lk, xk)\<leftarrow>zip l x. lk * (ln (\<Sum>y\<leftarrow>x. exp y) - xk)) = spec_cross_entropy l (softmax_row x)"
proof (cases "x = []")
  case True
  then show ?thesis by (simp add: spec_cross_entropy_def softmax_row_def)
next
  case False
  define S where "S = (\<Sum>y\<leftarrow>x. exp y)"
  have S: "0 < S" unfolding S_def using False by (rule sum_list_exp_pos)
  have t: "ln (exp xk / S) = xk - ln S" for xk
    using S by (simp add: ln_div)
  have "spec_cross_entropy l (softmax_row x) = - (\<Sum>(lk, xk)\<leftarrow>zip l x. lk * ln (exp xk / S))"
    unfolding spec_cross_entropy_def softmax_row_def S_def
    by (simp add: zip_map2 case_prod_unfold comp_def)
  also have "\<dots> = (\<Sum>(lk, xk)\<leftarrow>zip l x. lk * (ln S - xk))"
    by (simp add: t uminus_sum_list_map comp_def case_prod_unfold algebra_simps)
  finally show ?thesis by (simp add: S_def)
qed

lemma xent_eq:
  assumes "map length labels = map length logits"
  shows "tf_softmax_cross_entropy_with_logits_v2 labels logits =
         Inr (map (\<lambda>(l, x). spec_cross_entropy l (softmax_row x)) (zip labels logits))"
  using assms by (simp add: tf_softmax_cross_entropy_with_logits_v2_def xent_row)

lemma sub_rows:
  "length a = length b \<Longrightarrow>
   sum_list (concat (tf_square (map (\<lambda>(r, s). map (\<lambda>(x, y). x - y) (zip r s)) (zip a b)))) =
     (\<Sum>(l, s)\<leftarrow>zip a b. \<Sum>(lk, sk)\<leftarrow>zip l s. (lk - sk)\<^sup>2)"
  by (induction a b rule: list_induct2)
     (simp_all add: tf_square_def comp_def case_prod_unfold power2_eq_square)

lemma sub_len:
  "map length a = map length b \<Longrightarrow>
   length (concat (tf_square (map (\<lambda>(r, s). map (\<lambda>(x, y). x - y) (zip r s)) (zip a b)))) =
     sum_list (map length b)"
proof (induction a arbitrary: b)
  case Nil
  then show ?case by (simp add: tf_square_def)
next
  case (Cons r a)
  then obtain s b' where b: "b = s # b'" by (cases b) auto
  with Cons.prems have "length r = length s" "map length a = map length b'" by simp_all
  with Cons.IH[of b'] b show ?case by (simp add: tf_square_def)
qed

lemma l2u_eq:
  assumes "map length labels = map length logits"
  shows "tf_sub labels (tf_softmax logits) =
           Inr (map (\<lambda>(r, s). map (\<lambda>(x, y). x - y) (zip r s)) (zip labels (tf_softmax logits)))"
    and "tf_reduce_mean2 (tf_square (map (\<lambda>(r, s). map (\<lambda>(x, y). x - y) (zip r s))
            (zip labels (tf_softmax logits)))) = spec_consistency_loss labels logits"
proof -
  from assms have m: "map length labels = map length (tf_softmax logits)"
    by (simp add: map_length_tf_softmax)
  then show "tf_sub labels (tf_softmax logits) =
           Inr (map (\<lambda>(r, s). map (\<lambda>(x, y). x - y) (zip r s)) (zip labels (tf_softmax logits)))"
    by (simp add: tf_sub_def)
  from m have l: "length labels = length (tf_softmax logits)" by (rule map_eq_imp_length_eq)
  have z: "zip labels (tf_softmax logits) = map (\<lambda>(l, x). (l, softmax_row x)) (zip labels logits)"
    by (simp add: tf_softmax_def zip_map2)
  have "(\<Sum>(l, s)\<leftarrow>zip labels (tf_softmax logits). \<Sum>(lk, sk)\<leftarrow>zip l s. (lk - sk)\<^sup>2) =
        (\<Sum>(l, x)\<leftarrow>zip labels logits. \<Sum>(lk, sk)\<leftarrow>zip l (softmax_row x). (lk - sk)\<^sup>2)"
    by (simp add: z comp_def case_prod_unfold)
  then show "tf_reduce_mean2 (tf_square (map (\<lambda>(r, s). map (\<lambda>(x, y). x - y) (zip r s))
            (zip labels (tf_softmax logits)))) = spec_consistency_loss labels logits"
    unfolding tf_reduce_mean2_def spec_consistency_loss_def
    by (simp only: sub_rows[OF l] sub_len[OF m] map_length_tf_softmax)
qed

text \<open>
  C2. For labels and logits of equal shapes, a non-empty batch and a positive warm-up
  duration, the scalar that the step hands to the optimizer is the batch mean of the softmax
  cross-entropy between the labeled-stream labels and logits, plus the ramped matching
  weight times the mean squared error between the unlabeled-stream labels and the softmax
  of the unlabeled-stream logits. The step has one \<open>minimize\<close> call, on this scalar.
\<close>

theorem train_loss_is_spec_loss:
  assumes "map length labels_x = map length logits_x"
    and "map length labels_y = map length logits_y"
    and "logits_x \<noteq> []" and "concat logits_y \<noteq> []" and "0 < wk"
  shows "model_loss labels_x logits_x labels_y logits_y w step wk =
           Inr (spec_total_loss labels_x logits_x labels_y logits_y w step wk)"
proof -
  from assms(1) have len: "length labels_x = length logits_x"
    by (rule map_eq_imp_length_eq)
  have sup: "tf_reduce_mean1 (map (\<lambda>(l, x). spec_cross_entropy l (softmax_row x))
               (zip labels_x logits_x)) = spec_supervised_loss labels_x logits_x"
    by (simp add: tf_reduce_mean1_def spec_supervised_loss_def len)
  show ?thesis
    unfolding model_loss_def spec_total_loss_def
    by (simp add: xent_eq[OF assms(1)] l2u_eq[OF assms(2)] sup ramp_eq_spec[OF assms(5)])
qed

theorem train_loss_is_spec_loss_witness: "model_loss [[1, 0]] [[0, 0]] [[1, 0]] [[0, 0]] 100 524288 1024 = Inr (ln 2 + 25/2)"
  using train_loss_is_spec_loss[of "[[1, 0]]" "[[0, 0]]" "[[1, 0]]" "[[0, 0]]" 1024 100 524288]
  by (simp add: spec_total_loss_def spec_supervised_loss_def spec_cross_entropy_def
      softmax_row_def spec_weight_def spec_consistency_loss_def ln_div power2_eq_square)

subsection \<open>The temperature of the step\<close>

lemma sharpen_half: "sharpen (1 / 2) t = Inr (div_row_sums (tf_pow t 2))"
  by (simp add: sharpen_def py_inv_def)

lemma guess_label_Inr:
  assumes "guess_label nclass y cl T = Inr g"
  shows "sharpen T (p_model g) = Inr (p_target g)"
  using assms unfolding guess_label_def Let_def
  by (auto split: sum.splits)

lemma take_drop_concat_uniform:
  "\<forall>xs\<in>set xss. length xs = b \<Longrightarrow> i < length xss \<Longrightarrow>
     take b (drop (i * b) (concat xss)) = xss ! i"
proof (induction xss arbitrary: i)
  case Nil
  then show ?case by simp
next
  case (Cons xs xss)
  from Cons.prems have l: "length xs = b" and r: "\<forall>zs\<in>set xss. length zs = b" by simp_all
  show ?case
  proof (cases i)
    case 0
    with l show ?thesis by simp
  next
    case (Suc i')
    with Cons.prems have "i' < length xss" by simp
    with r have "take b (drop (i' * b) (concat xss)) = xss ! i'" by (rule Cons.IH)
    with Suc l show ?thesis by simp
  qed
qed

lemma tf_split_concat:
  assumes n: "0 < n" and len: "length xss = nat n" and u: "\<forall>xs\<in>set xss. length xs = b"
  shows "tf_split (concat xss) n = Inr xss"
proof -
  have lc: "length (concat xss) = nat n * b"
    using length_concat_uniform[OF u] len by simp
  from n have nn: "int (nat n) = n" by simp
  have "int (length (concat xss)) = n * int b"
    using n by (simp add: lc)
  then have m: "int (length (concat xss)) mod n = 0" by simp
  from n have "0 < nat n" by simp
  then have d: "length (concat xss) div nat n = b" by (simp add: lc)
  have "map (\<lambda>i. take b (drop (i * b) (concat xss))) [0..<nat n] = map (\<lambda>i. xss ! i) [0..<nat n]"
    by (rule map_cong[OF refl]) (simp add: take_drop_concat_uniform[OF u] len)
  also have "\<dots> = xss" unfolding len[symmetric] by (rule map_nth)
  finally show ?thesis
    using n m d by (simp add: tf_split_def Let_def)
qed

lemma model_guess_run_eq:
  assumes n: "0 < nu cfg" and b: "int (length y_in) = batch cfg"
    and r: "\<forall>row\<in>set y_in. int (length row) = nu cfg"
  shows "model_guess_run cfg nclass cl y_in =
           guess_label nclass (map (\<lambda>i. map (\<lambda>row. row ! i) y_in) [0..<nat (nu cfg)]) cl (1 / 2)"
proof -
  define views where "views = map (\<lambda>i. map (\<lambda>row. row ! i) y_in) [0..<nat (nu cfg)]"
  have v: "views_first (batch cfg) (nu cfg) y_in = Inr (concat views)"
    using n b r by (auto simp: views_first_def views_def list_ex_iff)
  have "tf_split (concat views) (nu cfg) = Inr views"
    using n by (rule tf_split_concat[where b = "length y_in"]) (auto simp: views_def)
  with v show ?thesis
    by (simp add: model_guess_run_def views_def)
qed

lemma keyword_clash_iff: "keyword_clash names kw \<longleftrightarrow> (\<exists>k\<in>set (map fst kw). k \<in> set names)"
  by (simp add: keyword_clash_def list_ex_iff)

text \<open>
  C4. For every configuration, the step either fails while the graph is built or for the
  fed value, or its guess is \<open>guess_label\<close> applied to the \<open>nu\<close> views of the fed value
  with the temperature 0.5: \<open>p_target\<close> is then \<open>p_model\<close> squared element-wise and
  renormalised. The configuration has no temperature; a key \<open>T\<close> among the extra keyword
  arguments does not select another value, it makes the call fail.
\<close>

theorem temperature_fixed:
  "model_guess cfg nclass cl y_in =
     (if batch cfg < 0 \<or> nu cfg \<le> 0 then Inl ValueError
      else if \<exists>k\<in>set (map fst (kwargs cfg)).
                k \<in> {''self'', ''y'', ''classifier'', ''T'', ''training''} then Inl TypeError
      else if int (length y_in) \<noteq> batch cfg \<or> (\<exists>row\<in>set y_in. int (length row) \<noteq> nu cfg)
        then Inl ValueError
      else guess_label nclass (map (\<lambda>i. map (\<lambda>row. row ! i) y_in) [0..<nat (nu cfg)]) cl (1 / 2))
   \<and> (model_guess cfg nclass cl y_in = Inr g \<longrightarrow>
        sharpen (1 / 2) (p_model g) = Inr (p_target g)
        \<and> p_target g = div_row_sums (tf_pow (p_model g) 2))
   \<and> ((''T'', v) \<in> set (kwargs cfg) \<longrightarrow> isl (model_guess cfg nclass cl y_in))"
proof -
  let ?views = "map (\<lambda>i. map (\<lambda>row. row ! i) y_in) [0..<nat (nu cfg)]"
  let ?clash = "\<exists>k\<in>set (map fst (kwargs cfg)). k \<in> {''self'', ''y'', ''classifier'', ''T'', ''training''}"
  have c: "keyword_clash guess_label_params (kwargs cfg) \<or> keyword_clash [''training''] (kwargs cfg)
             \<longleftrightarrow> ?clash"
    unfolding keyword_clash_iff guess_label_params_def by fastforce
  have build: "model_guess_build cfg =
      (if batch cfg < 0 \<or> nu cfg \<le> 0 then Inl ValueError
       else if ?clash then Inl TypeError else Inr ())"
    unfolding c[symmetric] model_guess_build_def by auto
  have run_bad: "model_guess_run cfg nclass cl y_in = Inl ValueError"
    if "int (length y_in) \<noteq> batch cfg \<or> (\<exists>row\<in>set y_in. int (length row) \<noteq> nu cfg)"
    using that by (auto simp: model_guess_run_def views_first_def list_ex_iff)
  have run_ok: "model_guess_run cfg nclass cl y_in = guess_label nclass ?views cl (1 / 2)"
    if "0 < nu cfg" "\<not> (int (length y_in) \<noteq> batch cfg \<or> (\<exists>row\<in>set y_in. int (length row) \<noteq> nu cfg))"
    using that by (intro model_guess_run_eq) auto
  have pin: "model_guess cfg nclass cl y_in =
     (if batch cfg < 0 \<or> nu cfg \<le> 0 then Inl ValueError
      else if ?clash then Inl TypeError
      else if int (length y_in) \<noteq> batch cfg \<or> (\<exists>row\<in>set y_in. int (length row) \<noteq> nu cfg)
        then Inl ValueError
      else guess_label nclass ?views cl (1 / 2))"
    unfolding model_guess_def build using run_bad run_ok by auto
  have sh: "sharpen (1 / 2) (p_model g) = Inr (p_target g)
        \<and> p_target g = div_row_sums (tf_pow (p_model g) 2)"
    if a: "model_guess cfg nclass cl y_in = Inr g"
  proof -
    from a pin have "guess_label nclass ?views cl (1 / 2) = Inr g"
      by (auto split: if_splits)
    then have s: "sharpen (1 / 2) (p_model g) = Inr (p_target g)" by (rule guess_label_Inr)
    then show ?thesis by (simp add: sharpen_half)
  qed
  have tk: "isl (model_guess cfg nclass cl y_in)" if "(''T'', v) \<in> set (kwargs cfg)"
  proof -
    from that have "?clash" by force
    with pin show ?thesis by auto
  qed
  from pin sh tk show ?thesis by blast
qed

text \<open>
  The prediction \<open>(1/4, 3/4)\<close> is not a fixed point of the sharpening: at the temperature
  0.5 the target is \<open>(1/10, 9/10)\<close>.
\<close>

lemma guess_label_example:
  "guess_label 2 [[0::nat], [1]] (map (\<lambda>x. [0, ln 3])) (1 / 2) =
     Inr \<lparr>p_target = [[Fin (1 / 10), Fin (9 / 10)]], p_model = [[1 / 4, 3 / 4]]\<rparr>"
proof -
  have p: "pow_f32 (1 / 4) 2 = Fin (1 / 16)" "pow_f32 (3 / 4) 2 = Fin (9 / 16)"
    by (simp_all add: pow_f32_def pow_result_def f32_half_min_def f32_overflow_def f32_max_def
        power2_eq_square)
  show ?thesis
    by (simp add: guess_label_def tf_concat0_def tf_reshape3_def tf_softmax_def
       softmax_row_def tf_reduce_mean0_def sharpen_def py_inv_def div_row_sums_def tf_pow_def
       upt_rec numeral_2_eq_2 Let_def p f32_sum_def f32_overflow_def f32_max_def)
qed

theorem temperature_fixed_witness:
  "model_guess \<lparr>batch = 1, lr = 1, wd = 1, ema = 1, beta = 1, w_match = 100, warmup_kimg = 1024,
        nu = 2, mixmode = ''xxy.yxy'', dbuf = 128, kwargs = [(''arch'', ())]\<rparr> 2
        (map (\<lambda>x. [0, ln 3])) [[0::nat, 1]]
     = Inr \<lparr>p_target = [[Fin (1 / 10), Fin (9 / 10)]], p_model = [[1 / 4, 3 / 4]]\<rparr>
   \<and> isl (model_guess \<lparr>batch = 1, lr = 1, wd = 1, ema = 1, beta = 1, w_match = 100,
        warmup_kimg = 1024, nu = 2, mixmode = ''xxy.yxy'', dbuf = 128, kwargs = [(''T'', ())]\<rparr> 2
        (map (\<lambda>x. [0, ln 3])) [[0::nat, 1]])"
proof -
  have "model_guess \<lparr>batch = 1, lr = 1, wd = 1, ema = 1, beta = 1, w_match = 100, warmup_kimg = 1024,
        nu = 2, mixmode = ''xxy.yxy'', dbuf = 128, kwargs = [(''arch'', ())]\<rparr> 2
        (map (\<lambda>x. [0, ln 3])) [[0::nat, 1]]
     = guess_label 2 [[0::nat], [1]] (map (\<lambda>x. [0, ln 3])) (1 / 2)"
    using temperature_fixed[of "\<lparr>batch = 1, lr = 1, wd = 1, ema = 1, beta = 1, w_match = 100,
        warmup_kimg = 1024, nu = 2, mixmode = ''xxy.yxy'', dbuf = 128, kwargs = [(''arch'', ())]\<rparr>"
        2 "map (\<lambda>x. [0, ln 3])" "[[0::nat, 1]]"
        "\<lparr>p_target = [[Fin (1 / 10), Fin (9 / 10)]], p_model = [[1 / 4, 3 / 4]]\<rparr>" "()"]
    by (simp add: upt_rec numeral_2_eq_2)
  then have a: "model_guess \<lparr>batch = 1, lr = 1, wd = 1, ema = 1, beta = 1, w_match = 100,
        warmup_kimg = 1024, nu = 2, mixmode = ''xxy.yxy'', dbuf = 128, kwargs = [(''arch'', ())]\<rparr> 2
        (map (\<lambda>x. [0, ln 3])) [[0::nat, 1]]
     = Inr \<lparr>p_target = [[Fin (1 / 10), Fin (9 / 10)]], p_model = [[1 / 4, 3 / 4]]\<rparr>"
    by (simp only: guess_label_example)
  have b: "isl (model_guess \<lparr>batch = 1, lr = 1, wd = 1, ema = 1, beta = 1, w_match = 100,
        warmup_kimg = 1024, nu = 2, mixmode = ''xxy.yxy'', dbuf = 128, kwargs = [(''T'', ())]\<rparr> 2
        (map (\<lambda>x. [0, ln 3])) [[0::nat, 1]])"
    using temperature_fixed[of "\<lparr>batch = 1, lr = 1, wd = 1, ema = 1, beta = 1, w_match = 100,
        warmup_kimg = 1024, nu = 2, mixmode = ''xxy.yxy'', dbuf = 128, kwargs = [(''T'', ())]\<rparr>"
        2 "map (\<lambda>x. [0, ln 3])" "[[0::nat, 1]]" _ "()"]
    by simp
  from a b show ?thesis by blast
qed

subsection \<open>The pseudo-label is detached\<close>

text \<open>
  C7. Every label that the step pairs with an unlabeled view is \<open>p_target\<close> with its
  derivative set to zero, there are \<open>nu\<close> of them, and the labels handed to the mixing step
  do not depend on the derivative of \<open>p_target\<close> with respect to the classifier parameters:
  two guesses with the same values give the same labels, so no gradient of the loss flows
  through the guesser.
\<close>

theorem pseudo_label_detached:
  "(\<forall>t \<in> set (tl (model_labels nclass n g l_in)).
        t = map (map (\<lambda>x. (fst x, 0))) (p_target g))
   \<and> length (tl (model_labels nclass n g l_in)) = nat n
   \<and> (map (map fst) (p_target g) = map (map fst) (p_target g') \<longrightarrow>
        model_labels nclass n g l_in = model_labels nclass n g' l_in)"
proof -
  have e: "tf_stop_gradient t = map (map (\<lambda>v. (v, 0))) (map (map fst) t)" for t
    by (simp add: tf_stop_gradient_def comp_def)
  have "map (map fst) (p_target g) = map (map fst) (p_target g') \<longrightarrow>
        model_labels nclass n g l_in = model_labels nclass n g' l_in"
    unfolding model_labels_def Let_def by (simp add: e)
  then show ?thesis
    by (simp add: model_labels_def tf_stop_gradient_def)
qed

theorem pseudo_label_detached_witness:
  "model_labels 2 2 \<lparr>p_target = [[(1 / 4, 5), (3 / 4, - 5)]], p_model = [[(1 / 3, 1), (2 / 3, - 1)]]\<rparr> [0]
     = model_labels 2 2 \<lparr>p_target = [[(1 / 4, 0), (3 / 4, 7)]], p_model = []\<rparr> [0]
   \<and> tl (model_labels 2 2 \<lparr>p_target = [[(1 / 4, 5), (3 / 4, - 5)]], p_model = []\<rparr> [0])
       = [[[(1 / 4, 0), (3 / 4, 0)]], [[(1 / 4, 0), (3 / 4, 0)]]]"
proof -
  have a: "model_labels 2 2 \<lparr>p_target = [[(1 / 4, 5), (3 / 4, - 5)]], p_model = [[(1 / 3, 1), (2 / 3, - 1)]]\<rparr> [0]
     = model_labels 2 2 \<lparr>p_target = [[(1 / 4, 0), (3 / 4, 7)]], p_model = []\<rparr> [0]"
    using pseudo_label_detached[of 2 2
        "\<lparr>p_target = [[(1 / 4, 5), (3 / 4, - 5)]], p_model = [[(1 / 3, 1), (2 / 3, - 1)]]\<rparr>" "[0]"
        "\<lparr>p_target = [[(1 / 4, 0), (3 / 4, 7)]], p_model = []\<rparr>"]
    by simp
  have b: "tl (model_labels 2 2 \<lparr>p_target = [[(1 / 4, 5), (3 / 4, - 5)]], p_model = []\<rparr> [0])
       = [[[(1 / 4, 0), (3 / 4, 0)]], [[(1 / 4, 0), (3 / 4, 0)]]]"
    by (simp add: model_labels_def tf_stop_gradient_def numeral_2_eq_2 Let_def)
  from a b show ?thesis by blast
qed

subsection \<open>The committed operations\<close>

lemma py_in_iff: "py_in sub s \<longleftrightarrow> (\<exists>ps ss. s = ps @ sub @ ss)"
proof (induction s)
  case Nil
  then show ?case by simp
next
  case (Cons c cs)
  have "(\<exists>ps ss. c # cs = ps @ sub @ ss) \<longleftrightarrow>
        (\<exists>ss. c # cs = sub @ ss) \<or> (\<exists>ps ss. cs = ps @ sub @ ss)"
  proof
    assume "\<exists>ps ss. c # cs = ps @ sub @ ss"
    then obtain ps ss where e: "c # cs = ps @ sub @ ss" by blast
    show "(\<exists>ss. c # cs = sub @ ss) \<or> (\<exists>ps ss. cs = ps @ sub @ ss)"
    proof (cases ps)
      case Nil
      with e show ?thesis by auto
    next
      case (Cons p ps')
      with e have "cs = ps' @ sub @ ss" by simp
      then show ?thesis by blast
    qed
  next
    assume "(\<exists>ss. c # cs = sub @ ss) \<or> (\<exists>ps ss. cs = ps @ sub @ ss)"
    then show "\<exists>ps ss. c # cs = ps @ sub @ ss"
    proof
      assume "\<exists>ss. c # cs = sub @ ss"
      then obtain ss where "c # cs = [] @ sub @ ss" by auto
      then show ?thesis by blast
    next
      assume "\<exists>ps ss. cs = ps @ sub @ ss"
      then obtain ps ss where "c # cs = (c # ps) @ sub @ ss" by auto
      then show ?thesis by blast
    qed
  qed
  with Cons.IH show ?case by (simp add: prefix_def)
qed

lemma run_assigns:
  "distinct ns \<Longrightarrow>
   fold run_post_op (map (\<lambda>v. AssignDecay v f) ns) s n =
     (if n \<in> set ns then map (\<lambda>x. x * f) (s n) else s n)"
proof (induction ns arbitrary: s)
  case Nil
  then show ?case by simp
next
  case (Cons a ns)
  then have d: "distinct ns" and a: "a \<notin> set ns" by simp_all
  define s' where "s' = s(a := map (\<lambda>x. x * f) (s a))"
  have "fold run_post_op (map (\<lambda>v. AssignDecay v f) (a # ns)) s n =
        fold run_post_op (map (\<lambda>v. AssignDecay v f) ns) s' n"
    by (simp add: s'_def)
  also have "\<dots> = (if n \<in> set ns then map (\<lambda>x. x * f) (s' n) else s' n)"
    using d by (rule Cons.IH)
  also have "\<dots> = (if n \<in> set (a # ns) then map (\<lambda>x. x * f) (s n) else s n)"
    using a by (auto simp: s'_def)
  finally show ?case .
qed

lemma run_other_ops:
  "\<forall>p\<in>set ps. \<forall>v f. p \<noteq> AssignDecay v f \<Longrightarrow> fold run_post_op ps s = s"
proof (induction ps arbitrary: s)
  case Nil
  then show ?case by simp
next
  case (Cons p ps)
  then have "run_post_op p s = s" by (cases p) auto
  with Cons show ?case by simp
qed

lemma classifier_training_pass_eq:
  "classifier_training_pass k g =
     ([next_op g ..< next_op g + k],
      \<lparr>update_ops = update_ops g @ [next_op g ..< next_op g + k], next_op = next_op g + k\<rparr>)"
  by (simp add: classifier_training_pass_def Let_def)

lemma filter_fresh:
  assumes "\<forall>v\<in>set old. v < n"
  shows "filter (\<lambda>v. v \<notin> set old) [n ..< n + k] = [n ..< n + k]"
  using assms by (auto simp: filter_id_conv)

lemma model_post_ops_eq:
  assumes "\<forall>v\<in>set (update_ops g). v < next_op g"
  shows "fst (model_post_ops g k0 ks hu wd_in lr_in vars) =
           map UpdateOp [next_op g ..< next_op g + k0] @ [EmaApply, PModelUpdate, PTargetUpdate]
             @ (if hu then [PDataUpdate] else []) @ weight_decay_ops wd_in lr_in vars"
  unfolding model_post_ops_def classifier_training_pass_eq Let_def
  by (simp add: filter_fresh[OF assms] case_prod_unfold)

lemma remaining_passes_fresh:
  "remaining_passes ks g = (opss, g2) \<Longrightarrow>
     (\<forall>ops\<in>set opss. \<forall>v\<in>set ops. next_op g \<le> v \<and> v \<in> set (update_ops g2))
     \<and> set (update_ops g) \<subseteq> set (update_ops g2) \<and> next_op g \<le> next_op g2"
proof (induction ks arbitrary: g opss g2)
  case Nil
  then show ?case by simp
next
  case (Cons k ks)
  define g1 where "g1 = \<lparr>update_ops = update_ops g @ [next_op g ..< next_op g + k], next_op = next_op g + k\<rparr>"
  obtain opss' g2' where r: "remaining_passes ks g1 = (opss', g2')" by (cases "remaining_passes ks g1")
  from Cons.prems r have o: "opss = [next_op g ..< next_op g + k] # opss'" and g2: "g2 = g2'"
    by (simp_all add: classifier_training_pass_eq g1_def)
  from Cons.IH[OF r]
  have ih1: "\<forall>ops\<in>set opss'. \<forall>v\<in>set ops. next_op g1 \<le> v \<and> v \<in> set (update_ops g2')"
    and ih2: "set (update_ops g1) \<subseteq> set (update_ops g2')" and ih3: "next_op g1 \<le> next_op g2'"
    by blast+
  have n1: "next_op g1 = next_op g + k" and u1: "update_ops g1 = update_ops g @ [next_op g ..< next_op g + k]"
    by (simp_all add: g1_def)
  show ?case
    unfolding o g2 using ih1 ih2 ih3 unfolding n1 u1 by fastforce
qed

lemma model_post_ops_shape:
  "\<exists>us. fst (model_post_ops g k0 ks hu wd_in lr_in vars) =
           (map UpdateOp us @ [EmaApply, PModelUpdate, PTargetUpdate] @ (if hu then [PDataUpdate] else []))
             @ weight_decay_ops wd_in lr_in vars"
  unfolding model_post_ops_def Let_def
  by (simp add: case_prod_unfold) blast

lemma model_post_ops_snd:
  "classifier_training_pass k0 g = (ops0, g1) \<Longrightarrow> remaining_passes ks g1 = (opss, g2) \<Longrightarrow>
     snd (model_post_ops g k0 ks hu wd_in lr_in vars) = g2"
  unfolding model_post_ops_def Let_def by simp

text \<open>
  C5. With distinct variable names, running the operations committed by a step multiplies
  by \<open>1 - wd * lr\<close> every variable of the classifier's list whose name contains \<open>kernel\<close>,
  and leaves every other trainable variable as it was.
\<close>

theorem weight_decay_only_kernels:
  assumes "distinct vars"
  shows "fold run_post_op (fst (model_post_ops g k0 ks hu wd_in lr_in vars)) s n =
           (if n \<in> set vars \<and> (\<exists>ps ss. n = ps @ ''kernel'' @ ss)
            then map (\<lambda>x. x * (1 - wd_in * lr_in)) (s n) else s n)"
proof -
  obtain us where post: "fst (model_post_ops g k0 ks hu wd_in lr_in vars) =
      (map UpdateOp us @ [EmaApply, PModelUpdate, PTargetUpdate] @ (if hu then [PDataUpdate] else []))
        @ weight_decay_ops wd_in lr_in vars"
    using model_post_ops_shape by blast
  define pre where
    "pre = map UpdateOp us @ [EmaApply, PModelUpdate, PTargetUpdate] @ (if hu then [PDataUpdate] else [])"
  have other: "fold run_post_op pre s = s"
    unfolding pre_def by (rule run_other_ops) auto
  from assms have d: "distinct (filter (py_in ''kernel'') vars)" by simp
  have "fold run_post_op (fst (model_post_ops g k0 ks hu wd_in lr_in vars)) s n =
        fold run_post_op (weight_decay_ops wd_in lr_in vars) (fold run_post_op pre s) n"
    unfolding post pre_def[symmetric] by simp
  also have "\<dots> = fold run_post_op (weight_decay_ops wd_in lr_in vars) s n"
    by (simp only: other)
  also have "\<dots> = (if n \<in> set (filter (py_in ''kernel'') vars)
                    then map (\<lambda>x. x * (1 - wd_in * lr_in)) (s n) else s n)"
    unfolding weight_decay_ops_def Let_def using d by (rule run_assigns)
  also have "\<dots> = (if n \<in> set vars \<and> (\<exists>ps ss. n = ps @ ''kernel'' @ ss)
            then map (\<lambda>x. x * (1 - wd_in * lr_in)) (s n) else s n)"
    by (simp add: py_in_iff)
  finally show ?thesis .
qed

theorem weight_decay_only_kernels_witness:
  "fold run_post_op (fst (model_post_ops \<lparr>update_ops = [0, 1], next_op = 2\<rparr> 1 [1, 1] False (1 / 50) (1 / 500)
       [''c/kernel:0'', ''c/bias:0'', ''bn/gamma:0''])) (\<lambda>_. [1, 2]) ''c/kernel:0''
     = [24999 / 25000, 24999 / 12500]
   \<and> fold run_post_op (fst (model_post_ops \<lparr>update_ops = [0, 1], next_op = 2\<rparr> 1 [1, 1] False (1 / 50) (1 / 500)
       [''c/kernel:0'', ''c/bias:0'', ''bn/gamma:0''])) (\<lambda>_. [1, 2]) ''c/bias:0''
     = [1, 2]"
proof -
  have k: "\<exists>ps ss. ''c/kernel:0'' = ps @ ''kernel'' @ ss"
    using py_in_iff[of "''kernel''" "''c/kernel:0''"] by simp
  have b: "\<not> (\<exists>ps ss. ''c/bias:0'' = ps @ ''kernel'' @ ss)"
    using py_in_iff[of "''kernel''" "''c/bias:0''"] by simp
  have d: "distinct [''c/kernel:0'', ''c/bias:0'', ''bn/gamma:0'']" by simp
  show ?thesis
    using weight_decay_only_kernels[OF d, of "\<lparr>update_ops = [0, 1], next_op = 2\<rparr>" 1 "[1, 1]" False
        "1 / 50" "1 / 500" "\<lambda>_. [1, 2]" "''c/kernel:0''"]
      weight_decay_only_kernels[OF d, of "\<lparr>update_ops = [0, 1], next_op = 2\<rparr>" 1 "[1, 1]" False
        "1 / 50" "1 / 500" "\<lambda>_. [1, 2]" "''c/bias:0''"]
      k b
    by simp
qed

text \<open>
  C6. In a graph whose registered update operations are older than the next one to be
  created, the committed operations contain exactly the update operations that the forward
  pass over \<open>batches[0]\<close> registered, followed by the bookkeeping operations of lines 124 to
  129. The update operations registered by the passes over \<open>batches[1:]\<close> are in the
  collection but not among the committed operations, and neither are those registered
  before (by the label guesser).
\<close>

theorem update_ops_of_first_pass_only:
  assumes "\<forall>v\<in>set (update_ops g). v < next_op g"
    and "classifier_training_pass k0 g = (ops0, g1)"
    and "remaining_passes ks g1 = (opss, g2)"
  shows "fst (model_post_ops g k0 ks hu wd_in lr_in vars) =
           map UpdateOp ops0 @ [EmaApply, PModelUpdate, PTargetUpdate]
             @ (if hu then [PDataUpdate] else []) @ weight_decay_ops wd_in lr_in vars
       \<and> (\<forall>ops\<in>set opss. \<forall>v\<in>set ops.
             v \<in> set (update_ops (snd (model_post_ops g k0 ks hu wd_in lr_in vars)))
             \<and> UpdateOp v \<notin> set (fst (model_post_ops g k0 ks hu wd_in lr_in vars)))
       \<and> (\<forall>v\<in>set (update_ops g). UpdateOp v \<notin> set (fst (model_post_ops g k0 ks hu wd_in lr_in vars)))"
proof -
  from assms(2) have ops0: "ops0 = [next_op g ..< next_op g + k0]"
    and n1: "next_op g1 = next_op g + k0"
    by (auto simp: classifier_training_pass_eq)
  have post: "fst (model_post_ops g k0 ks hu wd_in lr_in vars) =
           map UpdateOp ops0 @ [EmaApply, PModelUpdate, PTargetUpdate]
             @ (if hu then [PDataUpdate] else []) @ weight_decay_ops wd_in lr_in vars"
    unfolding ops0 using assms(1) by (rule model_post_ops_eq)
  have mem: "UpdateOp v \<in> set (fst (model_post_ops g k0 ks hu wd_in lr_in vars)) \<longleftrightarrow> v \<in> set ops0" for v
    unfolding post by (auto simp: weight_decay_ops_def Let_def)
  have snd: "snd (model_post_ops g k0 ks hu wd_in lr_in vars) = g2"
    using assms(2,3) by (rule model_post_ops_snd)
  from remaining_passes_fresh[OF assms(3)]
  have fresh: "\<forall>ops\<in>set opss. \<forall>v\<in>set ops. next_op g1 \<le> v \<and> v \<in> set (update_ops g2)"
    by blast
  have later: "\<forall>ops\<in>set opss. \<forall>v\<in>set ops.
             v \<in> set (update_ops (snd (model_post_ops g k0 ks hu wd_in lr_in vars)))
             \<and> UpdateOp v \<notin> set (fst (model_post_ops g k0 ks hu wd_in lr_in vars))"
  proof (intro ballI conjI)
    fix ops v assume o: "ops \<in> set opss" and v: "v \<in> set ops"
    with fresh have f: "next_op g1 \<le> v" and u: "v \<in> set (update_ops g2)" by blast+
    from u show "v \<in> set (update_ops (snd (model_post_ops g k0 ks hu wd_in lr_in vars)))"
      by (simp only: snd)
    from f show "UpdateOp v \<notin> set (fst (model_post_ops g k0 ks hu wd_in lr_in vars))"
      unfolding mem by (simp add: ops0 n1)
  qed
  have earlier: "\<forall>v\<in>set (update_ops g). UpdateOp v \<notin> set (fst (model_post_ops g k0 ks hu wd_in lr_in vars))"
    unfolding mem using assms(1) by (auto simp: ops0)
  from post later earlier show ?thesis by blast
qed

theorem update_ops_of_first_pass_only_witness:
  "fst (model_post_ops \<lparr>update_ops = [0, 1, 2, 3], next_op = 4\<rparr> 2 [2, 2] False (1 / 50) (1 / 500) [''c/bias:0''])
     = [UpdateOp 4, UpdateOp 5, EmaApply, PModelUpdate, PTargetUpdate]
   \<and> UpdateOp 6 \<notin> set (fst (model_post_ops \<lparr>update_ops = [0, 1, 2, 3], next_op = 4\<rparr> 2 [2, 2] False
        (1 / 50) (1 / 500) [''c/bias:0'']))
   \<and> UpdateOp 9 \<notin> set (fst (model_post_ops \<lparr>update_ops = [0, 1, 2, 3], next_op = 4\<rparr> 2 [2, 2] False
        (1 / 50) (1 / 500) [''c/bias:0'']))
   \<and> UpdateOp 3 \<notin> set (fst (model_post_ops \<lparr>update_ops = [0, 1, 2, 3], next_op = 4\<rparr> 2 [2, 2] False
        (1 / 50) (1 / 500) [''c/bias:0'']))"
proof -
  have a: "\<forall>v\<in>set (update_ops \<lparr>update_ops = [0, 1, 2, 3], next_op = 4\<rparr>).
             v < next_op \<lparr>update_ops = [0, 1, 2, 3], next_op = 4\<rparr>"
    by simp
  have b: "classifier_training_pass 2 \<lparr>update_ops = [0, 1, 2, 3], next_op = 4\<rparr> =
             ([4, 5], \<lparr>update_ops = [0, 1, 2, 3, 4, 5], next_op = 6\<rparr>)"
    by (simp add: classifier_training_pass_def upt_rec Let_def)
  have c: "remaining_passes [2, 2] \<lparr>update_ops = [0, 1, 2, 3, 4, 5], next_op = 6\<rparr> =
             ([[6, 7], [8, 9]], \<lparr>update_ops = [0, 1, 2, 3, 4, 5, 6, 7, 8, 9], next_op = 10\<rparr>)"
    by (simp add: classifier_training_pass_def upt_rec Let_def)
  have w: "weight_decay_ops (1 / 50) (1 / 500) [''c/bias:0''] = []"
    by (simp add: weight_decay_ops_def)
  show ?thesis
    using update_ops_of_first_pass_only[OF a b c, of False "1 / 50" "1 / 500" "[''c/bias:0'']"]
    by (simp add: w)
qed

subsection \<open>What the label guesser rejects\<close>

lemma length_concat_tf_softmax: "length (concat (tf_softmax t)) = length (concat t)"
  by (simp add: length_concat map_length_tf_softmax)

lemma model_guess_bad_nu: "nu cfg \<le> 0 \<Longrightarrow> model_guess cfg nclass cl y_in = Inl ValueError"
  unfolding model_guess_def model_guess_build_def by auto

text \<open>
  C8, as the code has it. Of the malformed configurations, these fail, each where a Python
  or TensorFlow operation raises: in \<open>guess_label\<close> with \<open>nclass > 0\<close>, an empty list of
  views, logits of different widths and a number of logits that is not a multiple of
  \<open>nu * nclass\<close> raise \<open>ValueError\<close> (\<open>tf.concat\<close>, \<open>tf.reshape\<close>), and otherwise \<open>T = 0\<close>
  raises \<open>ZeroDivisionError\<close> (\<open>1. / T\<close>); in the step, \<open>nu \<le> 0\<close> raises \<open>ValueError\<close> (the
  placeholder's shape, \<open>tf.split\<close>). Every other temperature, negative ones included, and
  views of unequal sizes whose logits pass these checks, are accepted: \<open>guess_label\<close>
  returns a guess.
\<close>

theorem guess_label_failures:
  "(0 < nclass \<and> (y = [] \<or> 1 < length (remdups (map length (concat (map cl y))))
        \<or> length (concat (concat (map cl y))) mod (length y * nclass) \<noteq> 0)
      \<longrightarrow> guess_label nclass y cl T = Inl ValueError)
   \<and> (0 < nclass \<and> \<not> (y = [] \<or> 1 < length (remdups (map length (concat (map cl y))))
        \<or> length (concat (concat (map cl y))) mod (length y * nclass) \<noteq> 0) \<and> T = 0
      \<longrightarrow> guess_label nclass y cl T = Inl ZeroDivisionError)
   \<and> (0 < nclass \<and> \<not> (y = [] \<or> 1 < length (remdups (map length (concat (map cl y))))
        \<or> length (concat (concat (map cl y))) mod (length y * nclass) \<noteq> 0) \<and> T \<noteq> 0
      \<longrightarrow> \<not> isl (guess_label nclass y cl T))
   \<and> (nu cfg \<le> 0 \<longrightarrow> model_guess cfg nclass' cl' y_in = Inl ValueError)"
proof -
  have a: "guess_label nclass y cl T = Inl ValueError"
    if "0 < nclass" and "y = [] \<or> 1 < length (remdups (map length (concat (map cl y))))
      \<or> length (concat (concat (map cl y))) mod (length y * nclass) \<noteq> 0"
    using that unfolding guess_label_def Let_def tf_concat0_def tf_reshape3_def
    by (auto simp: length_concat_tf_softmax)
  have b: "if T = 0 then guess_label nclass y cl T = Inl ZeroDivisionError
           else \<not> isl (guess_label nclass y cl T)"
    if "0 < nclass" and "\<not> (y = [] \<or> 1 < length (remdups (map length (concat (map cl y))))
      \<or> length (concat (concat (map cl y))) mod (length y * nclass) \<noteq> 0)"
    using that unfolding guess_label_def Let_def tf_concat0_def tf_reshape3_def sharpen_def py_inv_def
    by (auto simp: length_concat_tf_softmax)
  from a b model_guess_bad_nu[of cfg nclass' cl' y_in] show ?thesis by (auto split: if_splits)
qed

theorem guess_label_failures_witness:
  "guess_label 2 ([] :: nat list list) (map (\<lambda>_. [0, 0])) 1 = Inl ValueError
   \<and> guess_label 2 [[0::nat], [1]] (map (\<lambda>_. [0, 0])) 0 = Inl ZeroDivisionError
   \<and> \<not> isl (guess_label 2 [[0::nat], [1]] (map (\<lambda>_. [0, 0])) (- 1))
   \<and> model_guess \<lparr>batch = 1, lr = 1, wd = 1, ema = 1, beta = 1, w_match = 100,
        warmup_kimg = 1024, nu = 0, mixmode = ''xxy.yxy'', dbuf = 128, kwargs = [(''arch'', ())]\<rparr> 2
        (map (\<lambda>_. [0, 0])) [[] :: nat list] = Inl ValueError"
proof -
  have a: "guess_label 2 ([] :: nat list list) (map (\<lambda>_. [0, 0])) 1 = Inl ValueError"
    using guess_label_failures[where y = "[] :: nat list list" and cl = "map (\<lambda>_. [0, 0])"
        and nclass = 2 and T = 1
        and cfg = "\<lparr>batch = 1, lr = 1, wd = 1, ema = 1, beta = 1,
        w_match = 100, warmup_kimg = 1024, nu = 0, mixmode = ''xxy.yxy'', dbuf = 128,
        kwargs = [(''arch'', ())]\<rparr>" and nclass' = 2 and cl' = "map (\<lambda>_. [0, 0])"
        and y_in = "[[] :: nat list]"]
    by simp
  have b: "guess_label 2 [[0::nat], [1]] (map (\<lambda>_. [0, 0])) 0 = Inl ZeroDivisionError"
    using guess_label_failures[where y = "[[0::nat], [1]]" and cl = "map (\<lambda>_. [0, 0])"
        and nclass = 2 and T = 0
        and cfg = "\<lparr>batch = 1, lr = 1, wd = 1, ema = 1, beta = 1,
        w_match = 100, warmup_kimg = 1024, nu = 0, mixmode = ''xxy.yxy'', dbuf = 128,
        kwargs = [(''arch'', ())]\<rparr>" and nclass' = 2 and cl' = "map (\<lambda>_. [0, 0])"
        and y_in = "[[] :: nat list]"]
    by simp
  have c: "\<not> isl (guess_label 2 [[0::nat], [1]] (map (\<lambda>_. [0, 0])) (- 1))"
    using guess_label_failures[where y = "[[0::nat], [1]]" and cl = "map (\<lambda>_. [0, 0])"
        and nclass = 2 and T = "- 1"
        and cfg = "\<lparr>batch = 1, lr = 1, wd = 1, ema = 1, beta = 1,
        w_match = 100, warmup_kimg = 1024, nu = 0, mixmode = ''xxy.yxy'', dbuf = 128,
        kwargs = [(''arch'', ())]\<rparr>" and nclass' = 2 and cl' = "map (\<lambda>_. [0, 0])"
        and y_in = "[[] :: nat list]"]
    by simp
  have d: "model_guess \<lparr>batch = 1, lr = 1, wd = 1, ema = 1, beta = 1, w_match = 100,
        warmup_kimg = 1024, nu = 0, mixmode = ''xxy.yxy'', dbuf = 128, kwargs = [(''arch'', ())]\<rparr> 2
        (map (\<lambda>_. [0, 0])) [[] :: nat list] = Inl ValueError"
    using guess_label_failures[where cfg = "\<lparr>batch = 1, lr = 1, wd = 1, ema = 1, beta = 1,
        w_match = 100, warmup_kimg = 1024, nu = 0, mixmode = ''xxy.yxy'', dbuf = 128,
        kwargs = [(''arch'', ())]\<rparr>" and nclass' = 2 and cl' = "map (\<lambda>_. [0, 0])"
        and y_in = "[[] :: nat list]" and y = "[[0::nat], [1]]" and cl = "map (\<lambda>_. [0, 0])"
        and T = 1 and nclass = 2]
    by simp
  from a b c d show ?thesis by blast
qed

text \<open>
  A negative temperature is accepted. So are views of one and of three examples: the four
  rows of logits are regrouped into two pairs, and the guess has two rows, the first the
  mean of the predictions for the examples 0 and 2.
\<close>

theorem guess_label_no_validation:
  "guess_label 2 [[0::nat, 1], [2, 3]] (map (\<lambda>_. [0, 0])) (- 1) =
     Inr \<lparr>p_target = [[Fin (1 / 2), Fin (1 / 2)], [Fin (1 / 2), Fin (1 / 2)]],
          p_model = [[1 / 2, 1 / 2], [1 / 2, 1 / 2]]\<rparr>
   \<and> guess_label 2 [[0::nat], [1, 2, 3]] (map (\<lambda>x. if x = 0 then [0, 0] else [ln 3, 0])) (1 / 2) =
     Inr \<lparr>p_target = [[Fin (25 / 34), Fin (9 / 34)], [Fin (9 / 10), Fin (1 / 10)]],
          p_model = [[5 / 8, 3 / 8], [3 / 4, 1 / 4]]\<rparr>"
proof -
  have p: "pow_f32 (1 / 2) (- 1) = Fin 2" "pow_f32 (5 / 8) 2 = Fin (25 / 64)"
    "pow_f32 (3 / 8) 2 = Fin (9 / 64)" "pow_f32 (3 / 4) 2 = Fin (9 / 16)"
    "pow_f32 (1 / 4) 2 = Fin (1 / 16)"
    by (simp_all add: pow_f32_def pow_result_def f32_half_min_def f32_overflow_def f32_max_def
        power2_eq_square powr_minus)
  show ?thesis
    by (simp add: guess_label_def tf_concat0_def tf_reshape3_def tf_softmax_def
       softmax_row_def tf_reduce_mean0_def sharpen_def py_inv_def div_row_sums_def tf_pow_def
       upt_rec numeral_2_eq_2 Let_def p f32_sum_def f32_overflow_def f32_max_def)
qed

text \<open>With \<open>nclass = 0\<close> and logits of width 0 the guess has rows without entries.\<close>

lemma guess_label_nclass0_example:
  "guess_label 0 [[0::nat], [1]] (map (\<lambda>_. [])) (1 / 2) = Inr \<lparr>p_target = [[]], p_model = [[]]\<rparr>"
  by (simp add: guess_label_def tf_concat0_def tf_reshape3_def tf_softmax_def
       softmax_row_def tf_reduce_mean0_def sharpen_def py_inv_def div_row_sums_def tf_pow_def
       Let_def numeral_2_eq_2)

subsection \<open>The interleaving\<close>

lemma length_interleave_groups: "length (interleave_groups b n) = n + 1"
proof -
  have "b mod (n + 1) < n + 1" by simp
  then show ?thesis by (simp add: interleave_groups_def)
qed

lemma sum_interleave_groups: "sum_list (interleave_groups b n) = b"
proof -
  define q where "q = b div (n + 1)"
  define r where "r = b mod (n + 1)"
  have r: "r \<le> n + 1" by (simp add: r_def less_imp_le)
  have "sum_list (interleave_groups b n) = (n + 1 - r) * q + r * (q + 1)"
    by (simp add: interleave_groups_def sum_list_replicate q_def r_def)
  also have "\<dots> = ((n + 1 - r) + r) * q + r"
    by (simp add: algebra_simps)
  also have "\<dots> = (n + 1) * q + r" using r by simp
  also have "\<dots> = b" unfolding q_def r_def by (rule mult_div_mod_eq)
  finally show ?thesis .
qed

lemma length_split_groups: "length (split_groups ss v) = length ss"
  by (induction ss arbitrary: v) simp_all

lemma map_length_split_groups:
  "sum_list ss \<le> length v \<Longrightarrow> map length (split_groups ss v) = ss"
  by (induction ss arbitrary: v) simp_all

lemma concat_split_groups: "concat (split_groups ss v) = take (sum_list ss) v"
  by (induction ss arbitrary: v) (simp_all add: take_add)

lemma split_groups_concat: "map length gs = ss \<Longrightarrow> split_groups ss (concat gs) = gs"
  by (induction gs arbitrary: ss) auto

lemma split_groups_map: "split_groups ss (map f v) = map (map f) (split_groups ss v)"
  by (induction ss arbitrary: v) (simp_all add: take_map drop_map)

lemma nth_map_upt0: "p < n \<Longrightarrow> map f [0..<n] ! p = f p"
  by simp

lemma swap_groups_nth:
  "v < length G \<Longrightarrow> p < length (G ! v) \<Longrightarrow>
     swap_groups G ! v ! p = (if v = 0 then G ! p ! p else if v = p then G ! 0 ! p else G ! v ! p)"
proof -
  assume v: "v < length G" and p: "p < length (G ! v)"
  from v have "swap_groups G ! v =
      map (\<lambda>p. if v = 0 then G ! p ! p else if v = p then G ! 0 ! p else G ! v ! p) [0..<length (G ! v)]"
    by (simp add: swap_groups_def)
  then show ?thesis using p by (simp only: nth_map_upt0)
qed

lemma length_swap_groups: "length (swap_groups G) = length G"
  by (simp add: swap_groups_def)

lemma length_swap_groups_row: "v < length G \<Longrightarrow> length (swap_groups G ! v) = length (G ! v)"
  by (simp add: swap_groups_def)

lemma swap_groups_involution:
  assumes sq: "\<forall>r\<in>set G. length r = length G"
  shows "swap_groups (swap_groups G) = G"
proof (rule nth_equalityI)
  show "length (swap_groups (swap_groups G)) = length G"
    by (simp add: length_swap_groups)
next
  fix v assume "v < length (swap_groups (swap_groups G))"
  then have v: "v < length G" by (simp add: length_swap_groups)
  have len: "length (G ! w) = length G" if "w < length G" for w
    using sq that by simp
  show "swap_groups (swap_groups G) ! v = G ! v"
  proof (rule nth_equalityI)
    show "length (swap_groups (swap_groups G) ! v) = length (G ! v)"
      using v by (simp add: length_swap_groups_row length_swap_groups)
  next
    fix p assume "p < length (swap_groups (swap_groups G) ! v)"
    then have p: "p < length G"
      using v by (simp add: length_swap_groups_row length_swap_groups len)
    have 1: "swap_groups (swap_groups G) ! v ! p =
        (if v = 0 then swap_groups G ! p ! p else if v = p then swap_groups G ! 0 ! p
         else swap_groups G ! v ! p)"
      using v p by (simp add: swap_groups_nth length_swap_groups length_swap_groups_row len)
    have 2: "swap_groups G ! w ! p =
        (if w = 0 then G ! p ! p else if w = p then G ! 0 ! p else G ! w ! p)" if "w < length G" for w
      using that p by (simp add: swap_groups_nth len)
    from v have z: "0 < length G" by (cases G) simp_all
    show "swap_groups (swap_groups G) ! v ! p = G ! v ! p"
      unfolding 1 using 2[OF v] 2[OF p] 2[OF z] by auto
  qed
qed

lemma swap_groups_lengths:
  assumes sq: "\<forall>r\<in>set G. map length r = ss" and l: "length G = length ss"
    and r: "r \<in> set (swap_groups G)"
  shows "map length r = ss"
proof -
  from r obtain v where v: "v < length G" and rv: "r = swap_groups G ! v"
    by (auto simp: in_set_conv_nth length_swap_groups)
  have ml: "map length (G ! w) = ss" if "w < length G" for w using sq that by simp
  have len: "length (G ! w) = length ss" if "w < length G" for w
    using ml[OF that] by (metis length_map)
  have el: "length (G ! w ! p) = ss ! p" if "w < length G" "p < length ss" for w p
    using ml[OF that(1)] that(2) by (metis len nth_map that(1))
  show ?thesis
  proof (rule nth_equalityI)
    show "length (map length r) = length ss"
      using v by (simp add: rv length_swap_groups_row len)
  next
    fix p assume "p < length (map length r)"
    then have p: "p < length ss" using v by (simp add: rv length_swap_groups_row len)
    then have pG: "p < length G" using l by simp
    from v have z: "0 < length G" by (cases G) simp_all
    have "length (r ! p) = ss ! p"
      unfolding rv using v p pG z by (simp add: swap_groups_nth len el)
    then show "map length r ! p = ss ! p" using p v by (simp add: rv length_swap_groups_row len)
  qed
qed

lemma swap_groups_map:
  assumes sq: "\<forall>r\<in>set G. length r = length G"
  shows "swap_groups (map (map (map f)) G) = map (map (map f)) (swap_groups G)"
proof -
  have len: "length (G ! w) = length G" if "w < length G" for w
    using sq that by simp
  have "map (\<lambda>p. if v = 0 then map (map (map f)) G ! p ! p
                 else if v = p then map (map (map f)) G ! 0 ! p else map (map (map f)) G ! v ! p)
            [0..<length (map (map (map f)) G ! v)]
      = map (map f) (map (\<lambda>p. if v = 0 then G ! p ! p else if v = p then G ! 0 ! p else G ! v ! p)
            [0..<length (G ! v)])"
    if v: "v < length G" for v
  proof -
    from v have z: "0 < length G" by (cases G) simp_all
    show ?thesis using v z by (auto simp: len)
  qed
  then show ?thesis
    unfolding swap_groups_def by (auto simp: comp_def)
qed

lemma interleave_map:
  assumes ne: "xy \<noteq> []"
  shows "interleave (map (map f) xy) b = map (map f) (interleave xy b)"
proof -
  define ss where "ss = interleave_groups b (length xy - 1)"
  define G where "G = map (split_groups ss) xy"
  have lss: "length ss = length xy"
    using ne by (simp add: ss_def length_interleave_groups)
  have sq: "\<forall>r\<in>set G. length r = length G"
    by (auto simp: G_def length_split_groups lss)
  have "map (split_groups ss) (map (map f) xy) = map (map (map f)) G"
    by (simp add: G_def split_groups_map)
  then have "interleave (map (map f) xy) b = map concat (swap_groups (map (map (map f)) G))"
    by (simp add: interleave_def ss_def)
  also have "\<dots> = map concat (map (map (map f)) (swap_groups G))"
    by (simp only: swap_groups_map[OF sq])
  also have "\<dots> = map (map f) (map concat (swap_groups G))"
    by (simp add: map_concat comp_def)
  also have "map concat (swap_groups G) = interleave xy b"
    by (simp add: interleave_def ss_def G_def)
  finally show ?thesis .
qed

lemma length_interleave: "length (interleave xy b) = length xy"
  by (simp add: interleave_def length_swap_groups)

lemma interleave_twice:
  assumes ne: "xy \<noteq> []" and len: "\<forall>v\<in>set xy. length v = b"
  shows "interleave (interleave xy b) b = xy"
proof -
  define ss where "ss = interleave_groups b (length xy - 1)"
  define G where "G = map (split_groups ss) xy"
  have lss: "length ss = length xy"
    using ne by (simp add: ss_def length_interleave_groups)
  have sum: "sum_list ss = b" by (simp add: ss_def sum_interleave_groups)
  have sq: "\<forall>r\<in>set G. length r = length G"
    by (auto simp: G_def length_split_groups lss)
  have ml: "\<forall>r\<in>set G. map length r = ss"
    using len sum by (auto simp: G_def map_length_split_groups)
  have lG: "length G = length ss" by (simp add: G_def lss)
  have i1: "interleave xy b = map concat (swap_groups G)"
    by (simp add: interleave_def ss_def G_def)
  have "map (split_groups ss) (map concat (swap_groups G)) = map (\<lambda>r. r) (swap_groups G)"
    unfolding map_map comp_def
  proof (rule map_cong[OF refl])
    fix r assume "r \<in> set (swap_groups G)"
    with ml lG have "map length r = ss" by (rule swap_groups_lengths)
    then show "split_groups ss (concat r) = r" by (rule split_groups_concat)
  qed
  then have unsplit: "map (split_groups ss) (interleave xy b) = swap_groups G"
    by (simp add: i1)
  have "interleave (interleave xy b) b =
      map concat (swap_groups (map (split_groups (interleave_groups b (length (interleave xy b) - 1)))
        (interleave xy b)))"
    by (simp only: interleave_def[of "interleave xy b" b] Let_def)
  also have "\<dots> = map concat (swap_groups (map (split_groups ss) (interleave xy b)))"
    by (simp only: length_interleave ss_def)
  also have "\<dots> = map concat G"
    by (simp only: unsplit swap_groups_involution[OF sq])
  also have "\<dots> = map (\<lambda>v. v) xy"
    unfolding G_def map_map comp_def
  proof (rule map_cong[OF refl])
    fix v assume "v \<in> set xy"
    with len sum show "concat (split_groups ss v) = v"
      by (simp add: concat_split_groups)
  qed
  finally show ?thesis by simp
qed

text \<open>
  C10. For at least one stream and streams that all hold \<open>b\<close> examples, interleaving twice
  with the same \<open>b\<close> gives the streams back; and interleaving the per-example images of the
  interleaved streams gives the per-example images of the streams, in the streams' order
  (the second call of the step, for a classifier that acts example by example).
\<close>

theorem interleave_round_trip:
  assumes "xy \<noteq> []" and "\<forall>v\<in>set xy. length v = b"
  shows "interleave (interleave xy b) b = xy
       \<and> interleave (map (map f) (interleave xy b)) b = map (map f) xy"
proof -
  have t: "interleave (interleave xy b) b = xy"
    using assms by (rule interleave_twice)
  have "interleave xy b \<noteq> []"
    using assms(1) length_interleave[of xy b] by auto
  then have "interleave (map (map f) (interleave xy b)) b = map (map f) (interleave (interleave xy b) b)"
    by (rule interleave_map)
  with t show ?thesis by simp
qed

lemma interleave_example: "interleave [[1, 2, 3, 4, 5], [11, 12, 13, 14, 15], [21, 22, 23, 24, 25::nat]] 5
   = [[1, 12, 13, 24, 25], [11, 2, 3, 14, 15], [21, 22, 23, 4, 5]]"
  by code_simp

theorem interleave_round_trip_witness:
  "interleave (interleave [[1, 2, 3, 4, 5], [11, 12, 13, 14, 15], [21, 22, 23, 24, 25::nat]] 5) 5
     = [[1, 2, 3, 4, 5], [11, 12, 13, 14, 15], [21, 22, 23, 24, 25]]
   \<and> interleave (map (map (\<lambda>x. 2 * x)) (interleave [[1, 2, 3, 4, 5], [11, 12, 13, 14, 15], [21, 22, 23, 24, 25::nat]] 5)) 5
     = [[2, 4, 6, 8, 10], [22, 24, 26, 28, 30], [42, 44, 46, 48, 50]]"
  using interleave_round_trip[of "[[1, 2, 3, 4, 5], [11, 12, 13, 14, 15], [21, 22, 23, 24, 25::nat]]" 5
      "\<lambda>x. 2 * x"]
  by simp

end
